theory Spec2Isabelle
  imports Main "HOL-Library.Word"
begin

section \<open>Strings as the handlers use them\<close>

text \<open>
  JavaScript strings are modelled as \<^typ>\<open>string\<close>: a \<^typ>\<open>char\<close> is one code unit,
  of those below 256. A string is truthy exactly when it is not empty; \<open>null\<close> and
  \<open>undefined\<close> are \<^const>\<open>None\<close> where a value may be absent.
\<close>

definition slash :: char where
  "slash = CHR ''/''"

text \<open>\<^verbatim>\<open>s.split('/')\<close>: always at least one part; the empty string splits to one empty part.\<close>

fun split_slash :: "string \<Rightarrow> string list" where
  "split_slash [] = [[]]"
| "split_slash (c # cs) =
     (if c = slash then [] # split_slash cs
      else (case split_slash cs of
              [] \<Rightarrow> [[c]]
            | p # ps \<Rightarrow> (c # p) # ps))"

text \<open>\<^verbatim>\<open>s.replace(/^\//, '')\<close>: removes one leading separator when there is one.\<close>

fun strip_leading_slash :: "string \<Rightarrow> string" where
  "strip_leading_slash [] = []"
| "strip_leading_slash (c # cs) = (if c = slash then cs else c # cs)"

text \<open>\<^verbatim>\<open>a || b\<close> on a string that may be absent: the right operand when the left is falsy.\<close>

fun or_default :: "string option \<Rightarrow> string \<Rightarrow> string" where
  "or_default None d = d"
| "or_default (Some s) d = (if s = [] then d else s)"

text \<open>\<^verbatim>\<open>xs.pop()\<close>: the last element, \<open>undefined\<close> on an empty array.\<close>

definition pop :: "'a list \<Rightarrow> 'a option" where
  "pop xs = (if xs = [] then None else Some (last xs))"

text \<open>
  The relative path both the archive endpoint and the file browser compute:
  \<^verbatim>\<open>prefix ? key.slice(prefix.length).replace(/^\//, '') : key\<close>.
  \<open>slice\<close> drops \<open>prefix.length\<close> characters whatever they are.
\<close>

definition relativePath :: "string \<Rightarrow> string \<Rightarrow> string" where
  "relativePath prefix k =
     (if prefix \<noteq> [] then strip_leading_slash (drop (length prefix) k) else k)"

text \<open>\<^verbatim>\<open>prefix.split('/').filter(Boolean).pop() || 'download'\<close>\<close>

definition folderName :: "string \<Rightarrow> string" where
  "folderName prefix =
     or_default (pop (filter (\<lambda>s. s \<noteq> []) (split_slash prefix))) ''download''"

definition zip_filename :: "string \<Rightarrow> string" where
  "zip_filename prefix = folderName prefix @ ''.zip''"

subsection \<open>\<open>parseInt\<close>\<close>

text \<open>
  The builtin \<open>parseInt\<close> with no radix argument: leading white space is skipped (of the
  code units below 256 these are tab, line feed, vertical tab, form feed, carriage return,
  space and the no-break space), a sign is read, a \<open>0x\<close> prefix selects radix 16, and the
  longest run of digits is the value; no digit at all gives \<open>NaN\<close>. The result is a
  Number: an integer of magnitude up to \<open>2^53\<close> is that Number exactly, and beyond
  it \<^term>\<open>Approx n\<close> stands for the Number the runtime makes of the integer \<open>n\<close>, whose
  rounding is not modelled. \<open>parseInt('-0')\<close> is the negative zero.
\<close>

datatype js_number = NaN | NegZero | Num int | Approx int

definition digit_values :: "(char \<times> nat) list" where
  "digit_values =
     zip ''0123456789abcdefABCDEF''
       [0, 1, 2, 3, 4, 5, 6, 7, 8, 9, 10, 11, 12, 13, 14, 15, 10, 11, 12, 13, 14, 15]"

definition digit_of :: "char \<Rightarrow> nat option" where
  "digit_of c = map_of digit_values c"

definition digit_in :: "nat \<Rightarrow> char \<Rightarrow> nat option" where
  "digit_in radix c =
     (case digit_of c of
        None \<Rightarrow> None
      | Some d \<Rightarrow> if d < radix then Some d else None)"

fun parse_digits :: "nat \<Rightarrow> string \<Rightarrow> nat option \<Rightarrow> nat option" where
  "parse_digits radix [] acc = acc"
| "parse_digits radix (c # cs) acc =
     (case digit_in radix c of
        None \<Rightarrow> acc
      | Some d \<Rightarrow>
          parse_digits radix cs
            (Some ((case acc of None \<Rightarrow> 0 | Some n \<Rightarrow> n) * radix + d)))"

definition is_space :: "char \<Rightarrow> bool" where
  "is_space c \<longleftrightarrow>
     c = CHR '' '' \<or> c = CHR 0x09 \<or> c = CHR 0x0A \<or> c = CHR 0x0B
     \<or> c = CHR 0x0C \<or> c = CHR 0x0D \<or> c = CHR 0xA0"

definition hex_prefixed :: "string \<Rightarrow> bool" where
  "hex_prefixed s \<longleftrightarrow> take 2 s = ''0x'' \<or> take 2 s = ''0X''"

definition to_number :: "bool \<Rightarrow> nat \<Rightarrow> js_number" where
  "to_number negative n =
     (if n = 0 then (if negative then NegZero else Num 0)
      else if n \<le> 9007199254740992 then Num (if negative then - int n else int n)
      else Approx (if negative then - int n else int n))"

definition parseInt :: "string \<Rightarrow> js_number" where
  "parseInt s =
     (let t = dropWhile is_space s;
          negative = (take 1 t = ''-'');
          u = (if take 1 t = ''-'' \<or> take 1 t = ''+'' then drop 1 t else t);
          radix = (if hex_prefixed u then 16 else 10);
          v = (if hex_prefixed u then drop 2 u else u)
      in case parse_digits radix v None of
           None \<Rightarrow> NaN
         | Some n \<Rightarrow> to_number negative n)"

section \<open>The storage backend\<close>

text \<open>
  The object store the handlers talk to through \<open>Bun.s3\<close>. A listed object carries its
  key; the code only ever tests the key for truthiness, so an absent key is the empty
  string here.
\<close>

type_synonym bytes = "8 word list"

record s3_object =
  key :: string
  size_bytes :: "nat option"
  lastModified :: "string option"
  eTag :: "string option"

datatype s3_call =
    S3List string nat
  | S3Get string
  | S3Put string bytes
  | S3Delete string

datatype error =
    InvalidPath string
  | BackendError s3_call
  | NoSuchKey string
  | TypeError

text \<open>
  The backend's state: the stored objects by object path, what a listing of a prefix
  answers (\<open>contents\<close> may be absent), the outcome planned for each coming call of the
  client (\<open>True\<close>: that call fails at the backend; an exhausted plan means success), and
  the calls the handlers made so far, in order, with the keys as the handlers gave them.

  The storage client does not request a key as it is given: \<open>client_key\<close> is the object
  path the client makes of a key (the runtime's client removes separators at the ends of
  the key), or \<open>None\<close> when the client refuses the key and throws without a request.
  The client is not part of this repository, so its normalisation is a parameter of the
  state. Listing takes the prefix as it is. A failed call changes nothing in the store.
\<close>

record world =
  store :: "string \<rightharpoonup> bytes"
  listing :: "string \<Rightarrow> s3_object list option"
  client_key :: "string \<Rightarrow> string option"
  plan :: "bool list"
  trace :: "s3_call list"

definition next_fails :: "world \<Rightarrow> bool" where
  "next_fails w = (case plan w of [] \<Rightarrow> False | b # _ \<Rightarrow> b)"

definition called :: "s3_call \<Rightarrow> world \<Rightarrow> world" where
  "called c w = w\<lparr>plan := tl (plan w), trace := trace w @ [c]\<rparr>"

definition s3_list :: "string \<Rightarrow> nat \<Rightarrow> world \<Rightarrow> (error + s3_object list option) \<times> world" where
  "s3_list prefix maxKeys w =
     (if next_fails w then (Inl (BackendError (S3List prefix maxKeys)), called (S3List prefix maxKeys) w)
      else (Inr (map_option (take maxKeys) (listing w prefix)), called (S3List prefix maxKeys) w))"

definition s3_get :: "string \<Rightarrow> world \<Rightarrow> (error + bytes) \<times> world" where
  "s3_get k w =
     (case client_key w k of
        None \<Rightarrow> (Inl (InvalidPath k), called (S3Get k) w)
      | Some path \<Rightarrow>
          if next_fails w then (Inl (BackendError (S3Get k)), called (S3Get k) w)
          else (case store w path of
                  None \<Rightarrow> (Inl (NoSuchKey path), called (S3Get k) w)
                | Some b \<Rightarrow> (Inr b, called (S3Get k) w)))"

definition s3_put :: "string \<Rightarrow> bytes \<Rightarrow> world \<Rightarrow> (error + unit) \<times> world" where
  "s3_put k b w =
     (case client_key w k of
        None \<Rightarrow> (Inl (InvalidPath k), called (S3Put k b) w)
      | Some path \<Rightarrow>
          if next_fails w then (Inl (BackendError (S3Put k b)), called (S3Put k b) w)
          else (Inr (), (called (S3Put k b) w)\<lparr>store := (store w)(path \<mapsto> b)\<rparr>))"

definition s3_delete :: "string \<Rightarrow> world \<Rightarrow> (error + unit) \<times> world" where
  "s3_delete k w =
     (case client_key w k of
        None \<Rightarrow> (Inl (InvalidPath k), called (S3Delete k) w)
      | Some path \<Rightarrow>
          if next_fails w then (Inl (BackendError (S3Delete k)), called (S3Delete k) w)
          else (Inr (), (called (S3Delete k) w)\<lparr>store := (store w)(path := None)\<rparr>))"

section \<open>The archive writer\<close>

text \<open>
  The JSZip object the archive endpoint fills: a table from entry name to entry, where an
  entry is a file with its content or a folder. \<^verbatim>\<open>zip.file(name, content)\<close> first
  adds a folder entry for the parent folder of the name, and so on upwards, where there is
  none yet (\<open>createFolders\<close> is on by default), and then sets the file entry.
\<close>

datatype zip_entry = ZipFolder | ZipFile bytes

type_synonym zip = "string \<rightharpoonup> zip_entry"

definition forceTrailingSlash :: "string \<Rightarrow> string" where
  "forceTrailingSlash path = (if path \<noteq> [] \<and> last path = slash then path else path @ [slash])"

text \<open>\<^verbatim>\<open>path.lastIndexOf('/')\<close>, \<^const>\<open>None\<close> for \<open>-1\<close>.\<close>

definition lastIndexOf_slash :: "string \<Rightarrow> nat option" where
  "lastIndexOf_slash path =
     (if slash \<in> set path
      then Some (length path - Suc (length (takeWhile (\<lambda>c. c \<noteq> slash) (rev path))))
      else None)"

definition parentFolder :: "string \<Rightarrow> string" where
  "parentFolder path =
     (let p = (if path \<noteq> [] \<and> last path = slash then butlast path else path)
      in case lastIndexOf_slash p of
           None \<Rightarrow> []
         | Some lastSlash \<Rightarrow> if 0 < lastSlash then take lastSlash p else [])"

text \<open>
  \<open>folderAdd\<close>: nothing when an entry of the folder's name is there already; otherwise
  the folder's own parent is added first.
\<close>

function folderAdd :: "string \<Rightarrow> zip \<Rightarrow> zip" where
  "folderAdd name z =
     (if z (forceTrailingSlash name) \<noteq> None then z
      else (if parentFolder (forceTrailingSlash name) \<noteq> []
            then folderAdd (parentFolder (forceTrailingSlash name)) z
            else z)(forceTrailingSlash name \<mapsto> ZipFolder))"
  by pat_completeness auto
termination
  by (relation "measure (\<lambda>(name, z). length name)")
    (auto simp: parentFolder_def forceTrailingSlash_def lastIndexOf_slash_def Let_def
      split: if_splits option.splits)

declare folderAdd.simps [simp del]

definition zip_file :: "string \<Rightarrow> bytes \<Rightarrow> zip \<Rightarrow> zip" where
  "zip_file name content z =
     (if parentFolder name \<noteq> [] then folderAdd (parentFolder name) z else z)
       (name \<mapsto> ZipFile content)"

section \<open>The HTTP endpoints\<close>

text \<open>
  A handler returns a response, or throws (\<^const>\<open>Inl\<close>): the framework then answers with
  an error status and none of the handler's body.
\<close>

datatype body =
    JsonError string
  | JsonUrl string
  | JsonSuccess
  | JsonUploaded string
  | JsonMoved string string
  | JsonListing "s3_object list option"
  | ZipBody zip

record response =
  status :: nat
  headers :: "(string \<times> string) list"
  body :: body

definition json_response :: "nat \<Rightarrow> body \<Rightarrow> response" where
  "json_response st b =
     \<lparr>status = st, headers = [(''Content-Type'', ''application/json'')], body = b\<rparr>"

subsection \<open>\<open>GET /api/presign\<close>\<close>

text \<open>
  The signer \<open>file.presign\<close> of the storage client is a parameter: it gives a URL or
  throws.
\<close>

record presign_query =
  key_param :: "string option"
  expiresIn_param :: "string option"

definition api_presign ::
  "(string \<Rightarrow> js_number \<Rightarrow> error + string) \<Rightarrow> presign_query \<Rightarrow> error + response" where
  "api_presign presign q =
     (let expiresIn = parseInt (or_default (expiresIn_param q) ''3600'')
      in case key_param q of
           None \<Rightarrow> Inr (json_response 400 (JsonError ''Key is required''))
         | Some k \<Rightarrow>
             if k = [] then Inr (json_response 400 (JsonError ''Key is required''))
             else (case presign k expiresIn of
                     Inl e \<Rightarrow> Inl e
                   | Inr presignedUrl \<Rightarrow> Inr (json_response 200 (JsonUrl presignedUrl))))"

subsection \<open>\<open>GET /api/list\<close>, \<open>POST /api/delete\<close>, \<open>POST /api/upload\<close>\<close>

definition api_list :: "string option \<Rightarrow> world \<Rightarrow> (error + response) \<times> world" where
  "api_list prefix_param w =
     (let prefix = or_default prefix_param []
      in case s3_list prefix 1000 w of
           (Inl e, w') \<Rightarrow> (Inl e, w')
         | (Inr result, w') \<Rightarrow> (Inr (json_response 200 (JsonListing result)), w'))"

definition api_delete :: "string \<Rightarrow> world \<Rightarrow> (error + response) \<times> world" where
  "api_delete k w =
     (case s3_delete k w of
        (Inl e, w') \<Rightarrow> (Inl e, w')
      | (Inr _, w') \<Rightarrow> (Inr (json_response 200 JsonSuccess), w'))"

definition api_upload :: "string \<Rightarrow> bytes \<Rightarrow> world \<Rightarrow> (error + response) \<times> world" where
  "api_upload k content w =
     (case s3_put k content w of
        (Inl e, w') \<Rightarrow> (Inl e, w')
      | (Inr _, w') \<Rightarrow> (Inr (json_response 200 (JsonUploaded k)), w'))"

subsection \<open>\<open>POST /api/move\<close>\<close>

definition api_move :: "string \<Rightarrow> string \<Rightarrow> world \<Rightarrow> (error + response) \<times> world" where
  "api_move oldKey newKey w =
     (case s3_get oldKey w of
        (Inl e, w1) \<Rightarrow> (Inl e, w1)
      | (Inr content, w1) \<Rightarrow>
          (case s3_put newKey content w1 of
             (Inl e, w2) \<Rightarrow> (Inl e, w2)
           | (Inr _, w2) \<Rightarrow>
               (case s3_delete oldKey w2 of
                  (Inl e, w3) \<Rightarrow> (Inl e, w3)
                | (Inr _, w3) \<Rightarrow> (Inr (json_response 200 (JsonMoved oldKey newKey)), w3))))"

subsection \<open>\<open>GET /api/download-folder\<close>\<close>

text \<open>
  The loop over the listed objects: an object with a falsy key is skipped; otherwise its
  content is fetched first, and only then is the relative path computed and, when not
  empty, the entry written. A failed fetch leaves the loop by the exception.
\<close>

fun zip_files :: "string \<Rightarrow> s3_object list \<Rightarrow> zip \<Rightarrow> world \<Rightarrow> (error + zip) \<times> world" where
  "zip_files prefix [] z w = (Inr z, w)"
| "zip_files prefix (fileObj # files) z w =
     (if key fileObj = [] then zip_files prefix files z w
      else (case s3_get (key fileObj) w of
              (Inl e, w') \<Rightarrow> (Inl e, w')
            | (Inr content, w') \<Rightarrow>
                zip_files prefix files
                  (if relativePath prefix (key fileObj) \<noteq> []
                   then zip_file (relativePath prefix (key fileObj)) content z else z) w'))"

definition zip_response :: "string \<Rightarrow> zip \<Rightarrow> response" where
  "zip_response prefix z =
     \<lparr>status = 200,
      headers = [(''Content-Type'', ''application/zip''),
                 (''Content-Disposition'',
                  ''attachment; filename='' @ [CHR 0x22] @ zip_filename prefix @ [CHR 0x22])],
      body = ZipBody z\<rparr>"

definition api_download_folder :: "string option \<Rightarrow> world \<Rightarrow> (error + response) \<times> world" where
  "api_download_folder prefix_param w =
     (let prefix = or_default prefix_param []
      in case s3_list prefix 1000 w of
           (Inl e, w1) \<Rightarrow> (Inl e, w1)
         | (Inr result, w1) \<Rightarrow>
             (case zip_files prefix (case result of None \<Rightarrow> [] | Some cs \<Rightarrow> cs) Map.empty w1 of
                (Inl e, w2) \<Rightarrow> (Inl e, w2)
              | (Inr z, w2) \<Rightarrow> (Inr (zip_response prefix z), w2)))"

section \<open>The file browser's grouping\<close>

text \<open>
  \<open>groupedObjects\<close> of the file browser: a left fold over the listing that appends a
  file, or a folder name not yet seen, to the accumulator.
\<close>

record grouped =
  folders :: "string list"
  files :: "s3_object list"

definition group_step :: "string \<Rightarrow> grouped \<Rightarrow> s3_object \<Rightarrow> grouped" where
  "group_step currentPath acc obj =
     (if relativePath currentPath (key obj) = [] then acc
      else if length (split_slash (relativePath currentPath (key obj))) = 1
        then acc\<lparr>files := files acc @ [obj]\<rparr>
      else if split_slash (relativePath currentPath (key obj)) ! 0 \<in> set (folders acc)
        then acc
      else acc\<lparr>folders := folders acc @ [split_slash (relativePath currentPath (key obj)) ! 0]\<rparr>)"

definition groupedObjects :: "s3_object list \<Rightarrow> string \<Rightarrow> grouped" where
  "groupedObjects objects currentPath =
     foldl (group_step currentPath) \<lparr>folders = [], files = []\<rparr> objects"

section \<open>Emptying the bucket from the browser\<close>

text \<open>
  \<open>handleEmptyBucket\<close> runs in the browser and reaches the endpoints through \<open>fetch\<close>.
  What becomes of each coming request is planned in \<open>net\<close> (an exhausted plan means
  delivered): it is delivered and answered; or it is dropped before it reaches the server;
  or the server handles it and the reply is lost. In the last two cases the \<open>fetch\<close>
  rejects. A handler that throws still resolves the \<open>fetch\<close>, with a response that is
  not \<open>ok\<close>. What such an error response's body parses to is the framework's business:
  \<open>error_body_json\<close> says whether \<open>.json()\<close> succeeds on it (giving an object with no
  \<open>contents\<close>) or throws.
\<close>

datatype request = GetList string | PostDelete string

datatype delivery = Delivered | Dropped | ReplyLost

record browser =
  server :: world
  net :: "delivery list"
  requests :: "request list"
  error_body_json :: bool

datatype toast = BucketAlreadyEmpty | SuccessfullyDeleted nat | FailedToEmptyBucket

datatype 'a fetched = Rejected | Resolved bool 'a

datatype json = NotJson | Json "s3_object list option"

definition next_delivery :: "browser \<Rightarrow> delivery" where
  "next_delivery b = (case net b of [] \<Rightarrow> Delivered | d # _ \<Rightarrow> d)"

definition sent :: "request \<Rightarrow> browser \<Rightarrow> browser" where
  "sent r b = b\<lparr>net := tl (net b), requests := requests b @ [r]\<rparr>"

definition fetch_list :: "string \<Rightarrow> browser \<Rightarrow> json fetched \<times> browser" where
  "fetch_list prefix b =
     (case next_delivery b of
        Dropped \<Rightarrow> (Rejected, sent (GetList prefix) b)
      | ReplyLost \<Rightarrow>
          (Rejected, (sent (GetList prefix) b)\<lparr>server := snd (api_list (Some prefix) (server b))\<rparr>)
      | Delivered \<Rightarrow>
          (case api_list (Some prefix) (server b) of
             (Inl e, w') \<Rightarrow>
               (Resolved False (if error_body_json b then Json None else NotJson),
                (sent (GetList prefix) b)\<lparr>server := w'\<rparr>)
           | (Inr resp, w') \<Rightarrow>
               (Resolved True (case body resp of JsonListing cs \<Rightarrow> Json cs | _ \<Rightarrow> NotJson),
                (sent (GetList prefix) b)\<lparr>server := w'\<rparr>)))"

definition fetch_delete :: "string \<Rightarrow> browser \<Rightarrow> unit fetched \<times> browser" where
  "fetch_delete k b =
     (case next_delivery b of
        Dropped \<Rightarrow> (Rejected, sent (PostDelete k) b)
      | ReplyLost \<Rightarrow>
          (Rejected, (sent (PostDelete k) b)\<lparr>server := snd (api_delete k (server b))\<rparr>)
      | Delivered \<Rightarrow>
          (case api_delete k (server b) of
             (Inl e, w') \<Rightarrow> (Resolved False (), (sent (PostDelete k) b)\<lparr>server := w'\<rparr>)
           | (Inr resp, w') \<Rightarrow> (Resolved True (), (sent (PostDelete k) b)\<lparr>server := w'\<rparr>)))"

text \<open>
  The loop of \<open>handleEmptyBucket\<close>: the response of the delete request is not looked
  at, so every resolved \<open>fetch\<close> counts as a deletion; a rejected one throws.
\<close>

fun delete_all :: "s3_object list \<Rightarrow> nat \<Rightarrow> browser \<Rightarrow> nat option \<times> browser" where
  "delete_all [] deleted b = (Some deleted, b)"
| "delete_all (obj # contents) deleted b =
     (if key obj \<noteq> []
      then (case fetch_delete (key obj) b of
              (Rejected, b') \<Rightarrow> (None, b')
            | (Resolved ok u, b') \<Rightarrow> delete_all contents (deleted + 1) b')
      else delete_all contents deleted b)"

definition handleEmptyBucket :: "browser \<Rightarrow> toast \<times> browser" where
  "handleEmptyBucket b =
     (case fetch_list [] b of
        (Rejected, b1) \<Rightarrow> (FailedToEmptyBucket, b1)
      | (Resolved ok NotJson, b1) \<Rightarrow> (FailedToEmptyBucket, b1)
      | (Resolved ok (Json None), b1) \<Rightarrow> (BucketAlreadyEmpty, b1)
      | (Resolved ok (Json (Some contents)), b1) \<Rightarrow>
          (if length contents = 0 then (BucketAlreadyEmpty, b1)
           else (case delete_all contents 0 b1 of
                   (None, b2) \<Rightarrow> (FailedToEmptyBucket, b2)
                 | (Some deleted, b2) \<Rightarrow> (SuccessfullyDeleted deleted, b2))))"

section \<open>Vocabulary of the properties\<close>

text \<open>
  Which planned outcome a call meets: the \<open>i\<close>-th coming backend call fails; what
  becomes of the \<open>i\<close>-th coming request.
\<close>

definition fails_at :: "nat \<Rightarrow> world \<Rightarrow> bool" where
  "fails_at i w \<longleftrightarrow> i < length (plan w) \<and> plan w ! i"

definition delivery_at :: "nat \<Rightarrow> browser \<Rightarrow> delivery" where
  "delivery_at i b = (if i < length (net b) then net b ! i else Delivered)"

text \<open>A key the client accepts and whose object path holds an object.\<close>

definition readable :: "world \<Rightarrow> string \<Rightarrow> bool" where
  "readable w k = (case client_key w k of None \<Rightarrow> False | Some path \<Rightarrow> store w path \<noteq> None)"

text \<open>The object paths the client makes of a list of keys.\<close>

definition paths :: "world \<Rightarrow> string list \<Rightarrow> string list" where
  "paths w ks = concat (map (\<lambda>k. case client_key w k of None \<Rightarrow> [] | Some path \<Rightarrow> [path]) ks)"

text \<open>The truthy keys of a listing, in order: the objects a loop does not skip.\<close>

definition truthy_keys :: "s3_object list \<Rightarrow> string list" where
  "truthy_keys objects = filter (\<lambda>k. k \<noteq> []) (map key objects)"

text \<open>The page of objects a listing of \<open>prefix\<close> with \<open>maxKeys: 1000\<close> hands to a handler.\<close>

definition listed :: "string \<Rightarrow> world \<Rightarrow> s3_object list" where
  "listed prefix w = (case listing w prefix of None \<Rightarrow> [] | Some cs \<Rightarrow> take 1000 cs)"

text \<open>
  The archive a request got back, if it got one, an entry of it, and the names of its file
  entries.
\<close>

definition archive_of :: "(error + response) \<times> world \<Rightarrow> zip option" where
  "archive_of r =
     (case fst r of
        Inl e \<Rightarrow> None
      | Inr resp \<Rightarrow> (case body resp of ZipBody z \<Rightarrow> Some z | _ \<Rightarrow> None))"

definition archive_entry :: "(error + response) \<times> world \<Rightarrow> string \<Rightarrow> zip_entry option" where
  "archive_entry r name = (case archive_of r of None \<Rightarrow> None | Some z \<Rightarrow> z name)"

definition file_names :: "zip \<Rightarrow> string set" where
  "file_names z = {name. \<exists>content. z name = Some (ZipFile content)}"

text \<open>The value of a response header.\<close>

definition header :: "string \<Rightarrow> response \<Rightarrow> string option" where
  "header name resp = map_of (headers resp) name"

text \<open>
  The three classes of the specification's listing partition, read off the relative path:
  empty, one segment, more than one segment (then with the first segment).
\<close>

datatype placement = Excluded | AsFile | InFolder string

definition classify :: "string \<Rightarrow> string \<Rightarrow> placement" where
  "classify currentPath k =
     (if relativePath currentPath k = [] then Excluded
      else if length (split_slash (relativePath currentPath k)) = 1 then AsFile
      else InFolder (split_slash (relativePath currentPath k) ! 0))"

subsection \<open>Concrete buckets\<close>

text \<open>
  The client of the examples: it removes one separator from the end and one from the
  start of a key, and refuses a key of which nothing is left.
\<close>

definition strip_trailing_slash :: "string \<Rightarrow> string" where
  "strip_trailing_slash k = (if k \<noteq> [] \<and> last k = slash then butlast k else k)"

definition trim_slashes :: "string \<Rightarrow> string option" where
  "trim_slashes k =
     (if strip_leading_slash (strip_trailing_slash k) = [] then None
      else Some (strip_leading_slash (strip_trailing_slash k)))"

definition named :: "string \<Rightarrow> s3_object" where
  "named k = \<lparr>key = k, size_bytes = None, lastModified = None, eTag = None\<rparr>"

text \<open>
  A bucket given by its objects, in listing order: every listing answers all of them, and
  every call succeeds unless the plan says otherwise.
\<close>

definition bucket :: "(string \<times> bytes) list \<Rightarrow> bool list \<Rightarrow> world" where
  "bucket objects backend_plan =
     \<lparr>store = map_of objects,
      listing = (\<lambda>prefix. Some (map (\<lambda>(k, content). named k) objects)),
      client_key = trim_slashes,
      plan = backend_plan, trace = []\<rparr>"

text \<open>Two objects under \<open>a\<close>, with contents \<open>"1"\<close> and \<open>"2"\<close>.\<close>

definition folder_a :: "bool list \<Rightarrow> world" where
  "folder_a backend_plan = bucket [(''a/x.txt'', [49]), (''a/y/z.txt'', [50])] backend_plan"

text \<open>A bucket with a key that starts with a separator, next to the key without it.\<close>

definition slash_bucket :: world where
  "slash_bucket = bucket [(''/a.txt'', [1]), (''a.txt'', [2])] []"

text \<open>A bucket with the one object \<open>x\<close>.\<close>

definition bucket_x :: world where
  "bucket_x = bucket [(''x'', [1])] []"

text \<open>A browser in front of a bucket, given the backend's plan and the network's.\<close>

definition browser_of :: "(string \<times> bytes) list \<Rightarrow> bool list \<Rightarrow> delivery list \<Rightarrow> browser" where
  "browser_of objects backend_plan net_plan =
     \<lparr>server = bucket objects backend_plan,
      net = net_plan, requests = [], error_body_json = True\<rparr>"

definition three_objects :: "bool list \<Rightarrow> delivery list \<Rightarrow> browser" where
  "three_objects backend_plan net_plan =
     browser_of [(''a'', [1]), (''b'', [2]), (''c'', [3])] backend_plan net_plan"

text \<open>
  A signer that throws on \<open>NaN\<close> and writes whether the expiry is one hour into the URL.
\<close>

definition example_presign :: "string \<Rightarrow> js_number \<Rightarrow> error + string" where
  "example_presign k e =
     (if e = NaN then Inl TypeError
      else Inr (''https://bucket.example/'' @ k
                  @ (if e = Num 3600 then ''?hour'' else ''?other'')))"

section \<open>Facts about the backend and the network\<close>

lemma next_fails_iff: "next_fails w = fails_at 0 w"
  by (cases "plan w") (simp_all add: next_fails_def fails_at_def)

lemma fails_at_called: "fails_at i (called c w) = fails_at (Suc i) w"
  by (cases "plan w") (simp_all add: called_def fails_at_def)

lemma fails_at_store: "fails_at i (w\<lparr>store := s\<rparr>) = fails_at i w"
  by (simp add: fails_at_def)

lemma store_called: "store (called c w) = store w"
  by (simp add: called_def)

lemma trace_called: "trace (called c w) = trace w @ [c]"
  by (simp add: called_def)

lemma listing_called: "listing (called c w) = listing w"
  by (simp add: called_def)

lemma client_key_called: "client_key (called c w) = client_key w"
  by (simp add: called_def)

lemma readable_called: "readable (called c w) k = readable w k"
  by (simp add: readable_def called_def split: option.splits)

lemmas backend_defs = s3_get_def s3_put_def s3_delete_def s3_list_def next_fails_iff
  fails_at_called fails_at_store store_called trace_called listing_called client_key_called
  readable_called

lemma next_delivery_iff: "next_delivery b = delivery_at 0 b"
  by (cases "net b") (simp_all add: next_delivery_def delivery_at_def)

lemma delivery_at_sent: "delivery_at i (sent r b) = delivery_at (Suc i) b"
  by (cases "net b") (simp_all add: sent_def delivery_at_def)

lemma delivery_at_server: "delivery_at i (b\<lparr>server := w\<rparr>) = delivery_at i b"
  by (simp add: delivery_at_def)

lemma requests_sent: "requests (sent r b) = requests b @ [r]"
  by (simp add: sent_def)

lemma server_sent: "server (sent r b) = server b"
  by (simp add: sent_def)

lemmas browser_defs = fetch_delete_def fetch_list_def api_delete_def api_list_def Let_def
  next_delivery_iff delivery_at_sent delivery_at_server requests_sent server_sent

lemmas example_defs = bucket_def folder_a_def slash_bucket_def bucket_x_def browser_of_def
  three_objects_def named_def trim_slashes_def strip_trailing_slash_def slash_def
  fails_at_def delivery_at_def readable_def paths_def truthy_keys_def listed_def

lemmas eval_defs = api_download_folder_def api_move_def api_list_def api_delete_def
  s3_list_def s3_get_def s3_put_def s3_delete_def next_fails_def called_def
  relativePath_def zip_response_def archive_of_def archive_entry_def header_def Let_def
  zip_file_def parentFolder_def lastIndexOf_slash_def forceTrailingSlash_def folderAdd.simps
  zip_filename_def folderName_def pop_def json_response_def

section \<open>Splitting at separators\<close>

lemma split_slash_not_Nil: "split_slash s \<noteq> []"
  by (induction s) (auto split: list.splits)

lemma split_slash_no_slash: "slash \<notin> set s \<Longrightarrow> split_slash s = [s]"
  by (induction s) auto

lemma split_slash_append:
  "split_slash (a @ slash # b) = split_slash a @ split_slash b"
proof (induction a)
  case Nil
  then show ?case using split_slash_no_slash [of "[]"] by simp
next
  case (Cons c a)
  then show ?case using split_slash_not_Nil [of a]
    by (cases "split_slash a") auto
qed

lemma split_slash_parts: "p \<in> set (split_slash s) \<Longrightarrow> slash \<notin> set p"
  by (induction s arbitrary: p) (auto split: if_splits list.splits)

lemma split_slash_all_slashes:
  "set s \<subseteq> {slash} \<Longrightarrow> filter (\<lambda>p. p \<noteq> []) (split_slash s) = []"
  by (induction s) auto

lemma length_split_slash:
  "length (split_slash s) = Suc (length (filter (\<lambda>c. c = slash) s))"
  by (induction s) (auto split: list.splits simp: split_slash_not_Nil)

lemma first_segment: "split_slash s ! 0 = takeWhile (\<lambda>c. c \<noteq> slash) s"
  by (induction s) (auto split: list.splits simp: split_slash_not_Nil)

section \<open>The suggested file name of the archive\<close>

lemma split_slash_trailing:
  assumes "slash \<notin> set seg" and "set post \<subseteq> {slash}"
  shows "filter (\<lambda>p. p \<noteq> []) (split_slash (seg @ post)) = filter (\<lambda>p. p \<noteq> []) [seg]"
proof (cases post)
  case Nil
  with assms(1) show ?thesis by (simp add: split_slash_no_slash)
next
  case (Cons c cs)
  with assms(2) have c: "c = slash" and cs: "set cs \<subseteq> {slash}" by auto
  show ?thesis unfolding Cons c
    by (simp only: split_slash_append filter_append split_slash_all_slashes [OF cs]
        split_slash_no_slash [OF assms(1)]) simp
qed

lemma folderName_decomposed:
  assumes "seg \<noteq> []" "slash \<notin> set seg" "set post \<subseteq> {slash}" "pre = [] \<or> last pre = slash"
  shows "folderName (pre @ seg @ post) = seg"
proof -
  have tail: "filter (\<lambda>p. p \<noteq> []) (split_slash (seg @ post)) = [seg]"
    using split_slash_trailing [OF assms(2,3)] assms(1) by simp
  have "\<exists>front. filter (\<lambda>p. p \<noteq> []) (split_slash (pre @ seg @ post)) = front @ [seg]"
  proof (cases "pre = []")
    case True
    then show ?thesis using tail by simp
  next
    case False
    with assms(4) have "pre = butlast pre @ [slash]"
      by (metis append_butlast_last_id)
    then have "pre @ seg @ post = butlast pre @ slash # (seg @ post)"
      by (metis append.assoc append_Cons append_Nil)
    then show ?thesis by (simp only: split_slash_append filter_append tail) blast
  qed
  then show ?thesis by (auto simp: folderName_def pop_def assms(1))
qed

lemma folderName_all_slashes: "set prefix \<subseteq> {slash} \<Longrightarrow> folderName prefix = ''download''"
  by (simp add: folderName_def pop_def split_slash_all_slashes)

lemma last_segment_exists:
  assumes "\<not> set prefix \<subseteq> {slash}"
  shows "\<exists>pre seg post. prefix = pre @ seg @ post \<and> seg \<noteq> [] \<and> slash \<notin> set seg
            \<and> set post \<subseteq> {slash} \<and> (pre = [] \<or> last pre = slash)"
proof -
  define post where "post = rev (takeWhile (\<lambda>c. c = slash) (rev prefix))"
  define rest where "rest = rev (dropWhile (\<lambda>c. c = slash) (rev prefix))"
  define seg where "seg = rev (takeWhile (\<lambda>c. c \<noteq> slash) (rev rest))"
  define pre where "pre = rev (dropWhile (\<lambda>c. c \<noteq> slash) (rev rest))"
  have 1: "prefix = rest @ post"
    unfolding rest_def post_def by (metis rev_append rev_rev_ident takeWhile_dropWhile_id)
  have 2: "rest = pre @ seg"
    unfolding pre_def seg_def by (metis rev_append rev_rev_ident takeWhile_dropWhile_id)
  have 3: "set post \<subseteq> {slash}"
    unfolding post_def by (auto dest: set_takeWhileD)
  have 4: "slash \<notin> set seg"
    unfolding seg_def by (auto dest: set_takeWhileD)
  have "dropWhile (\<lambda>c. c = slash) (rev prefix) \<noteq> []"
    using assms by (auto simp: dropWhile_eq_Nil_conv)
  then have "rev rest \<noteq> []" "hd (rev rest) \<noteq> slash"
    unfolding rest_def using hd_dropWhile [of "\<lambda>c. c = slash" "rev prefix"] by auto
  then have 5: "seg \<noteq> []"
    unfolding seg_def by (cases "rev rest") auto
  have 6: "pre = [] \<or> last pre = slash"
    unfolding pre_def using hd_dropWhile [of "\<lambda>c. c \<noteq> slash" "rev rest"]
    by (auto simp: last_rev)
  from 1 2 3 4 5 6 show ?thesis by auto
qed

lemma zip_filename_cases:
  "(set prefix \<subseteq> {slash} \<longrightarrow> zip_filename prefix = ''download.zip'')
   \<and> (\<forall>pre seg post.
         prefix = pre @ seg @ post \<and> seg \<noteq> [] \<and> slash \<notin> set seg
           \<and> set post \<subseteq> {slash} \<and> (pre = [] \<or> last pre = slash)
         \<longrightarrow> zip_filename prefix = seg @ ''.zip'')"
proof (intro conjI impI allI)
  assume "set prefix \<subseteq> {slash}"
  then show "zip_filename prefix = ''download.zip''"
    by (simp add: zip_filename_def folderName_all_slashes)
next
  fix pre seg post
  assume d: "prefix = pre @ seg @ post \<and> seg \<noteq> [] \<and> slash \<notin> set seg
           \<and> set post \<subseteq> {slash} \<and> (pre = [] \<or> last pre = slash)"
  then have "folderName (pre @ seg @ post) = seg"
    by (intro folderName_decomposed) simp_all
  with d show "zip_filename prefix = seg @ ''.zip''"
    by (simp add: zip_filename_def)
qed

lemma download_folder_response:
  assumes "fst (api_download_folder p w) = Inr resp"
  shows "\<exists>z. resp = zip_response (or_default p []) z"
  using assms
  by (auto simp: api_download_folder_def s3_list_def Let_def
      split: if_splits prod.splits sum.splits)

text \<open>
  Claim C8. For every prefix, the file name the download-folder endpoint suggests in the
  \<open>Content-Disposition\<close> header of its response is the last non-empty segment of the
  prefix followed by \<open>.zip\<close>, and \<open>download.zip\<close> when the prefix is empty or made of
  separators only. The last non-empty segment of a prefix is the separator-free,
  non-empty \<open>seg\<close> in a decomposition \<open>pre @ seg @ post\<close> where \<open>post\<close> holds separators
  only and \<open>pre\<close> is empty or ends with a separator; every prefix that is not all
  separators has such a decomposition.
\<close>

theorem download_folder_filename:
  "(fst (api_download_folder p w) = Inr resp \<longrightarrow>
      (\<exists>name.
          header ''Content-Disposition'' resp
            = Some (''attachment; filename='' @ [CHR 0x22] @ name @ [CHR 0x22])
          \<and> (set (or_default p []) \<subseteq> {slash} \<longrightarrow> name = ''download.zip'')
          \<and> (\<forall>pre seg post.
                or_default p [] = pre @ seg @ post \<and> seg \<noteq> [] \<and> slash \<notin> set seg
                  \<and> set post \<subseteq> {slash} \<and> (pre = [] \<or> last pre = slash)
                \<longrightarrow> name = seg @ ''.zip'')))
   \<and> (\<not> set (or_default p []) \<subseteq> {slash} \<longrightarrow>
         (\<exists>pre seg post. or_default p [] = pre @ seg @ post \<and> seg \<noteq> [] \<and> slash \<notin> set seg
            \<and> set post \<subseteq> {slash} \<and> (pre = [] \<or> last pre = slash)))"
proof (intro conjI impI)
  assume "fst (api_download_folder p w) = Inr resp"
  from download_folder_response [OF this] obtain z where
    "resp = zip_response (or_default p []) z" by blast
  then have "header ''Content-Disposition'' resp
      = Some (''attachment; filename='' @ [CHR 0x22] @ zip_filename (or_default p []) @ [CHR 0x22])"
    by (simp add: header_def zip_response_def)
  with zip_filename_cases [of "or_default p []"]
  show "\<exists>name.
          header ''Content-Disposition'' resp
            = Some (''attachment; filename='' @ [CHR 0x22] @ name @ [CHR 0x22])
          \<and> (set (or_default p []) \<subseteq> {slash} \<longrightarrow> name = ''download.zip'')
          \<and> (\<forall>pre seg post.
                or_default p [] = pre @ seg @ post \<and> seg \<noteq> [] \<and> slash \<notin> set seg
                  \<and> set post \<subseteq> {slash} \<and> (pre = [] \<or> last pre = slash)
                \<longrightarrow> name = seg @ ''.zip'')"
    by blast
next
  assume "\<not> set (or_default p []) \<subseteq> {slash}"
  then show "\<exists>pre seg post. or_default p [] = pre @ seg @ post \<and> seg \<noteq> [] \<and> slash \<notin> set seg
            \<and> set post \<subseteq> {slash} \<and> (pre = [] \<or> last pre = slash)"
    by (rule last_segment_exists)
qed

text \<open>
  The folder \<open>a\<close> is offered as \<open>a.zip\<close>, and the whole bucket, with no prefix, as
  \<open>download.zip\<close>.
\<close>

theorem download_folder_filename_witness:
  "(\<exists>resp w'. api_download_folder (Some ''a'') (folder_a []) = (Inr resp, w')
       \<and> header ''Content-Disposition'' resp
           = Some (''attachment; filename='' @ [CHR 0x22] @ ''a.zip'' @ [CHR 0x22]))
   \<and> (\<exists>resp w'. api_download_folder None (folder_a []) = (Inr resp, w')
       \<and> header ''Content-Disposition'' resp
           = Some (''attachment; filename='' @ [CHR 0x22] @ ''download.zip'' @ [CHR 0x22]))"
proof (intro conjI)
  have "\<exists>resp w'. api_download_folder (Some ''a'') (folder_a []) = (Inr resp, w')"
    by (simp add: example_defs eval_defs)
  then obtain resp w' where r: "api_download_folder (Some ''a'') (folder_a []) = (Inr resp, w')"
    by blast
  then have "fst (api_download_folder (Some ''a'') (folder_a [])) = Inr resp" by simp
  from download_folder_filename [THEN conjunct1, THEN mp, OF this] obtain name where
    h: "header ''Content-Disposition'' resp
            = Some (''attachment; filename='' @ [CHR 0x22] @ name @ [CHR 0x22])"
    and n: "\<forall>pre seg post.
                or_default (Some ''a'') [] = pre @ seg @ post \<and> seg \<noteq> [] \<and> slash \<notin> set seg
                  \<and> set post \<subseteq> {slash} \<and> (pre = [] \<or> last pre = slash)
                \<longrightarrow> name = seg @ ''.zip''"
    by blast
  from n [rule_format, of "[]" "''a''" "[]"] have "name = ''a.zip''"
    by (simp add: slash_def)
  with r h show "\<exists>resp w'. api_download_folder (Some ''a'') (folder_a []) = (Inr resp, w')
       \<and> header ''Content-Disposition'' resp
           = Some (''attachment; filename='' @ [CHR 0x22] @ ''a.zip'' @ [CHR 0x22])"
    by blast
next
  have "\<exists>resp w'. api_download_folder None (folder_a []) = (Inr resp, w')"
    by (simp add: example_defs eval_defs)
  then obtain resp w' where r: "api_download_folder None (folder_a []) = (Inr resp, w')"
    by blast
  then have "fst (api_download_folder None (folder_a [])) = Inr resp" by simp
  from download_folder_filename [THEN conjunct1, THEN mp, OF this] obtain name where
    h: "header ''Content-Disposition'' resp
            = Some (''attachment; filename='' @ [CHR 0x22] @ name @ [CHR 0x22])"
    and n: "set (or_default None []) \<subseteq> {slash} \<longrightarrow> name = ''download.zip''"
    by blast
  from n have "name = ''download.zip''" by simp
  with r h show "\<exists>resp w'. api_download_folder None (folder_a []) = (Inr resp, w')
       \<and> header ''Content-Disposition'' resp
           = Some (''attachment; filename='' @ [CHR 0x22] @ ''download.zip'' @ [CHR 0x22])"
    by blast
qed

section \<open>Presigned URLs\<close>

lemma parseInt_3600: "parseInt ''3600'' = Num 3600"
  by (simp add: parseInt_def is_space_def hex_prefixed_def digit_in_def digit_of_def
      digit_values_def to_number_def)

text \<open>
  Claim C6, as amended. The presign endpoint answers with status 400 and the body
  \<open>{error: "Key is required"}\<close> exactly when the \<open>key\<close> parameter is absent or
  empty (and no other request gets a response of status 400). With a key, the signing is
  delegated to the backend for that key and the parsed expiry: when the signer produces a
  URL, the answer is a response of status 200 with body \<open>{url}\<close> of that URL, and when
  the signer throws, the handler throws and there is no such response.
\<close>

theorem presign_key_required:
  "(key_param q = None \<or> key_param q = Some []) =
       (api_presign presign q
          = Inr \<lparr>status = 400, headers = [(''Content-Type'', ''application/json'')],
                 body = JsonError ''Key is required''\<rparr>)
   \<and> (key_param q = None \<or> key_param q = Some []) =
       (\<exists>resp. api_presign presign q = Inr resp \<and> status resp = 400)
   \<and> (\<forall>k. key_param q = Some k \<and> k \<noteq> [] \<longrightarrow>
         api_presign presign q
           = (case presign k (parseInt (or_default (expiresIn_param q) ''3600'')) of
                Inl e \<Rightarrow> Inl e
              | Inr url \<Rightarrow>
                  Inr \<lparr>status = 200, headers = [(''Content-Type'', ''application/json'')],
                        body = JsonUrl url\<rparr>))"
  by (auto simp: api_presign_def json_response_def Let_def split: option.splits sum.splits)

text \<open>
  A request with no key is refused; one for \<open>a.txt\<close> with \<open>expiresIn=300\<close> gets the
  signer's URL.
\<close>

theorem presign_key_required_witness:
  "api_presign example_presign \<lparr>key_param = None, expiresIn_param = Some ''300''\<rparr>
     = Inr \<lparr>status = 400, headers = [(''Content-Type'', ''application/json'')],
            body = JsonError ''Key is required''\<rparr>
   \<and> api_presign example_presign \<lparr>key_param = Some ''a.txt'', expiresIn_param = Some ''300''\<rparr>
     = Inr \<lparr>status = 200, headers = [(''Content-Type'', ''application/json'')],
            body = JsonUrl ''https://bucket.example/a.txt?other''\<rparr>"
proof -
  let ?q0 = "\<lparr>key_param = None, expiresIn_param = Some ''300''\<rparr>"
  let ?q1 = "\<lparr>key_param = Some ''a.txt'', expiresIn_param = Some ''300''\<rparr>"
  have 0: "key_param ?q0 = None \<or> key_param ?q0 = Some []"
    by simp
  have 1: "key_param ?q1 = Some ''a.txt'' \<and> ''a.txt'' \<noteq> []"
    by simp
  have 2: "example_presign ''a.txt'' (parseInt (or_default (expiresIn_param ?q1) ''3600''))
          = Inr ''https://bucket.example/a.txt?other''"
    by (simp add: example_presign_def parseInt_def is_space_def hex_prefixed_def
        digit_in_def digit_of_def digit_values_def to_number_def)
  note t = presign_key_required
  from t [of ?q0 example_presign, THEN conjunct1, THEN iffD1, OF 0]
    t [of ?q1 example_presign, THEN conjunct2, THEN conjunct2, rule_format, OF 1]
  show ?thesis by (simp only: 2 sum.case)
qed

text \<open>
  Claim C6 as stated fails: with the key \<open>a.txt\<close> present and \<open>expiresIn=abc\<close>, the
  expiry parses to \<open>NaN\<close>, the signer throws, and the handler throws instead of
  returning a response of status 200.
\<close>

theorem presign_key_required_counterexample:
  "key_param \<lparr>key_param = Some ''a.txt'', expiresIn_param = Some ''abc''\<rparr> = Some ''a.txt''
   \<and> parseInt ''abc'' = NaN
   \<and> api_presign example_presign \<lparr>key_param = Some ''a.txt'', expiresIn_param = Some ''abc''\<rparr>
       = Inl TypeError"
  by (simp add: api_presign_def example_presign_def parseInt_def is_space_def hex_prefixed_def
      digit_in_def digit_of_def digit_values_def to_number_def)

text \<open>
  Claim C10. When the presign endpoint is called with a key and no \<open>expiresIn\<close>
  parameter, the backend is asked to sign with an expiry of exactly 3600 seconds: whatever
  the signer, the endpoint's answer is the signer's answer for the key and 3600.
\<close>

theorem presign_default_expiry:
  assumes "key_param q = Some k" and "k \<noteq> []" and "expiresIn_param q = None"
  shows "api_presign presign q =
           (case presign k (Num 3600) of
              Inl e \<Rightarrow> Inl e
            | Inr url \<Rightarrow> Inr (json_response 200 (JsonUrl url)))"
  using assms by (simp add: api_presign_def parseInt_3600)

text \<open>The example signer marks the URL it signs for one hour.\<close>

theorem presign_default_expiry_witness:
  "api_presign example_presign \<lparr>key_param = Some ''a.txt'', expiresIn_param = None\<rparr>
     = Inr (json_response 200 (JsonUrl ''https://bucket.example/a.txt?hour''))"
proof -
  let ?q = "\<lparr>key_param = Some ''a.txt'', expiresIn_param = None\<rparr>"
  have 1: "key_param ?q = Some ''a.txt''" and 2: "''a.txt'' \<noteq> []"
    and 3: "expiresIn_param ?q = None"
    by simp_all
  from presign_default_expiry [of ?q "''a.txt''" example_presign, OF 1 2 3]
  show ?thesis by (simp add: example_presign_def)
qed

section \<open>Moving an object\<close>

text \<open>
  Claim C2, as amended. For keys \<open>oldKey\<close> and \<open>newKey\<close> of which the storage client
  makes different object paths, when every backend step succeeds (the object is there and
  none of the three calls fails), the move endpoint reads \<open>oldKey\<close>, then writes
  \<open>newKey\<close>, then deletes \<open>oldKey\<close>, in that order and nothing else; afterwards there
  is no object at the path of \<open>oldKey\<close>, the object at the path of \<open>newKey\<close> has
  exactly the bytes that were at the path of \<open>oldKey\<close>, and every other object is
  unchanged.
\<close>

theorem move_success:
  assumes "client_key w oldKey = Some oldPath" and "client_key w newKey = Some newPath"
    and "oldPath \<noteq> newPath" and "store w oldPath = Some content"
    and "\<not> fails_at 0 w" and "\<not> fails_at 1 w" and "\<not> fails_at 2 w"
  shows "\<exists>w'. api_move oldKey newKey w = (Inr (json_response 200 (JsonMoved oldKey newKey)), w')
           \<and> trace w' = trace w @ [S3Get oldKey, S3Put newKey content, S3Delete oldKey]
           \<and> store w' oldPath = None
           \<and> store w' newPath = Some content
           \<and> (\<forall>path. path \<noteq> oldPath \<and> path \<noteq> newPath \<longrightarrow> store w' path = store w path)"
  using assms by (simp add: api_move_def backend_defs numeral_2_eq_2)

text \<open>Moving \<open>a/x.txt\<close> to \<open>b/x.txt\<close> in a bucket where every call succeeds.\<close>

theorem move_success_witness:
  "\<exists>w'. api_move ''a/x.txt'' ''b/x.txt'' (folder_a [])
            = (Inr (json_response 200 (JsonMoved ''a/x.txt'' ''b/x.txt'')), w')
         \<and> trace w' = trace (folder_a []) @ [S3Get ''a/x.txt'', S3Put ''b/x.txt'' [49], S3Delete ''a/x.txt'']
         \<and> store w' ''a/x.txt'' = None
         \<and> store w' ''b/x.txt'' = Some [49]
         \<and> (\<forall>path. path \<noteq> ''a/x.txt'' \<and> path \<noteq> ''b/x.txt''
               \<longrightarrow> store w' path = store (folder_a []) path)"
  by (rule move_success) (simp_all add: example_defs)

text \<open>
  Claim C2 as stated fails: the keys \<open>x\<close> and \<open>x/\<close> differ, the client requests the
  object path \<open>x\<close> for both, every step of the move succeeds, and afterwards there is
  an object at neither key.
\<close>

theorem move_success_counterexample:
  "fst (api_move ''x'' ''x/'' bucket_x) = Inr (json_response 200 (JsonMoved ''x'' ''x/''))
   \<and> store bucket_x ''x'' = Some [1]
   \<and> trace (snd (api_move ''x'' ''x/'' bucket_x)) = [S3Get ''x'', S3Put ''x/'' [1], S3Delete ''x'']
   \<and> store (snd (api_move ''x'' ''x/'' bucket_x)) ''x'' = None
   \<and> store (snd (api_move ''x'' ''x/'' bucket_x)) ''x/'' = None"
  by (simp add: example_defs eval_defs)





section \<open>The archive of a folder\<close>

lemma folderAdd_entry:
  "folderAdd name z n = z n \<or> (z n = None \<and> folderAdd name z n = Some ZipFolder)"
proof (induction name z rule: folderAdd.induct)
  case (1 name z)
  show ?case
  proof (cases "z (forceTrailingSlash name) \<noteq> None")
    case True
    then show ?thesis by (subst folderAdd.simps) simp
  next
    case exists: False
    show ?thesis
    proof (cases "parentFolder (forceTrailingSlash name) \<noteq> []")
      case True
      from "1.IH" [OF exists True] exists True show ?thesis
        by (subst (1 2) folderAdd.simps) auto
    next
      case False
      with exists show ?thesis by (subst (1 2) folderAdd.simps) auto
    qed
  qed
qed

lemma file_names_folderAdd: "file_names (folderAdd name z) = file_names z"
proof -
  have "(\<exists>content. folderAdd name z n = Some (ZipFile content))
      = (\<exists>content. z n = Some (ZipFile content))" for n
  proof -
    from folderAdd_entry [of name z n] show ?thesis
    proof
      assume "folderAdd name z n = z n"
      then show ?thesis by simp
    next
      assume "z n = None \<and> folderAdd name z n = Some ZipFolder"
      then show ?thesis by simp
    qed
  qed
  then show ?thesis by (simp add: file_names_def)
qed

lemma file_names_zip_file: "file_names (zip_file name content z) = insert name (file_names z)"
proof -
  have "file_names ((folderAdd (parentFolder name) z)(name \<mapsto> ZipFile content))
      = insert name (file_names (folderAdd (parentFolder name) z))"
    by (auto simp: file_names_def)
  moreover have "file_names (z(name \<mapsto> ZipFile content)) = insert name (file_names z)"
    by (auto simp: file_names_def)
  ultimately show ?thesis by (simp add: zip_file_def file_names_folderAdd)
qed

lemma s3_get_fails:
  "fails_at 0 w \<or> \<not> readable w k \<Longrightarrow> \<exists>e. s3_get k w = (Inl e, called (S3Get k) w)"
  by (auto simp: backend_defs readable_def split: option.splits)

lemma s3_get_reads:
  "\<not> fails_at 0 w \<Longrightarrow> readable w k \<Longrightarrow> \<exists>content. s3_get k w = (Inr content, called (S3Get k) w)"
  by (auto simp: backend_defs readable_def split: option.splits)

lemma zip_files_names:
  "zip_files prefix fs z w = (Inr z', w') \<Longrightarrow>
   file_names z' = file_names z
     \<union> {relativePath prefix k | k. k \<in> set (truthy_keys fs) \<and> relativePath prefix k \<noteq> []}"
proof (induction fs arbitrary: z w)
  case Nil
  then show ?case by (simp add: truthy_keys_def)
next
  case (Cons f fs)
  show ?case
  proof (cases "key f = []")
    case True
    with Cons show ?thesis by (simp add: truthy_keys_def)
  next
    case False
    obtain r w1 where g: "s3_get (key f) w = (r, w1)" by (cases "s3_get (key f) w")
    with Cons.prems False obtain c where r: "r = Inr c" by (cases r) auto
    let ?z1 = "if relativePath prefix (key f) \<noteq> []
               then zip_file (relativePath prefix (key f)) c z else z"
    from Cons.prems False g r have "zip_files prefix fs ?z1 w1 = (Inr z', w')" by simp
    from Cons.IH [OF this] False show ?thesis
      by (auto simp: truthy_keys_def file_names_zip_file)
  qed
qed

lemma zip_files_aborts:
  "\<exists>i<length (truthy_keys fs). fails_at i w \<or> \<not> readable w (truthy_keys fs ! i) \<Longrightarrow>
   \<exists>e w'. zip_files prefix fs z w = (Inl e, w')"
proof (induction fs arbitrary: z w)
  case Nil
  then show ?case by (simp add: truthy_keys_def)
next
  case (Cons f fs)
  show ?case
  proof (cases "key f = []")
    case True
    with Cons show ?thesis by (simp add: truthy_keys_def)
  next
    case False
    then have ks: "truthy_keys (f # fs) = key f # truthy_keys fs" by (simp add: truthy_keys_def)
    show ?thesis
    proof (cases "fails_at 0 w \<or> \<not> readable w (key f)")
      case True
      from s3_get_fails [OF this] False show ?thesis by auto
    next
      case ok: False
      with s3_get_reads [of w "key f"] obtain c where
        c: "s3_get (key f) w = (Inr c, called (S3Get (key f)) w)" by auto
      from Cons.prems ok obtain i where
        i: "i < length (truthy_keys fs)"
           "fails_at (Suc i) w \<or> \<not> readable w (truthy_keys fs ! i)"
        unfolding ks by (auto simp: less_Suc_eq_0_disj)
      then have "\<exists>i<length (truthy_keys fs). fails_at i (called (S3Get (key f)) w)
                    \<or> \<not> readable (called (S3Get (key f)) w) (truthy_keys fs ! i)"
        by (auto simp: backend_defs)
      from Cons.IH [OF this] c False show ?thesis by simp
    qed
  qed
qed

lemma zip_files_completes:
  "\<forall>i<length (truthy_keys fs). \<not> fails_at i w \<and> readable w (truthy_keys fs ! i) \<Longrightarrow>
   \<exists>z' w'. zip_files prefix fs z w = (Inr z', w')"
proof (induction fs arbitrary: z w)
  case Nil
  then show ?case by simp
next
  case (Cons f fs)
  show ?case
  proof (cases "key f = []")
    case True
    with Cons show ?thesis by (simp add: truthy_keys_def)
  next
    case False
    then have ks: "truthy_keys (f # fs) = key f # truthy_keys fs" by (simp add: truthy_keys_def)
    from Cons.prems have ok: "\<not> fails_at 0 w" "readable w (key f)"
      and rest: "\<forall>i<length (truthy_keys fs). \<not> fails_at (Suc i) w \<and> readable w (truthy_keys fs ! i)"
      unfolding ks by auto
    from s3_get_reads [OF ok] obtain c where
      c: "s3_get (key f) w = (Inr c, called (S3Get (key f)) w)" by auto
    from rest have "\<forall>i<length (truthy_keys fs). \<not> fails_at i (called (S3Get (key f)) w)
                    \<and> readable (called (S3Get (key f)) w) (truthy_keys fs ! i)"
      by (simp add: backend_defs)
    from Cons.IH [OF this] c False show ?thesis by simp
  qed
qed

text \<open>
  Claim C1, as amended. When the download-folder endpoint returns a response, the file
  entries of its archive have exactly these names: for each object of the listing with a
  non-empty key, in the case of a non-empty prefix the key without its first
  \<open>prefix.length\<close> characters (the prefix, for a key under it) and without one leading
  separator, and in the case of an empty prefix the key itself, unchanged; an object
  has no entry exactly when that name is empty. It does return a response when the listing
  succeeds and every listed object's content is fetched.
\<close>

theorem download_folder_entry_names:
  "(fst (api_download_folder p w) = Inr resp \<longrightarrow>
      (\<exists>z. body resp = ZipBody z \<and>
         file_names z = set (filter (\<lambda>name. name \<noteq> [])
                   (map (\<lambda>k. if or_default p [] = [] then k
                             else strip_leading_slash (drop (length (or_default p [])) k))
                      (truthy_keys (listed (or_default p []) w))))))
   \<and> (\<not> fails_at 0 w
        \<and> (\<forall>i<length (truthy_keys (listed (or_default p []) w)).
              \<not> fails_at (Suc i) w
              \<and> readable w (truthy_keys (listed (or_default p []) w) ! i)) \<longrightarrow>
      (\<exists>resp' w'. api_download_folder p w = (Inr resp', w')))"
proof (intro conjI impI)
  let ?prefix = "or_default p []"
  let ?c = "S3List ?prefix 1000"
  assume a: "fst (api_download_folder p w) = Inr resp"
  then have nf: "\<not> fails_at 0 w"
    by (auto simp: api_download_folder_def backend_defs Let_def split: if_splits)
  with a obtain z w' where
    z: "zip_files ?prefix (listed ?prefix w) Map.empty (called ?c w) = (Inr z, w')"
    and resp: "resp = zip_response ?prefix z"
    by (auto simp: api_download_folder_def backend_defs listed_def Let_def
        split: option.splits prod.splits sum.splits)
  have "file_names z = {relativePath ?prefix k | k. k \<in> set (truthy_keys (listed ?prefix w))
                    \<and> relativePath ?prefix k \<noteq> []}"
    using zip_files_names [OF z] by (simp add: file_names_def)
  then have "file_names z = set (filter (\<lambda>name. name \<noteq> [])
                   (map (\<lambda>k. if ?prefix = [] then k
                             else strip_leading_slash (drop (length ?prefix) k))
                      (truthy_keys (listed ?prefix w))))"
    by (auto simp: relativePath_def)
  with resp show "\<exists>z. body resp = ZipBody z \<and>
         file_names z = set (filter (\<lambda>name. name \<noteq> [])
                   (map (\<lambda>k. if ?prefix = [] then k
                             else strip_leading_slash (drop (length ?prefix) k))
                      (truthy_keys (listed ?prefix w))))"
    by (simp add: zip_response_def)
next
  let ?prefix = "or_default p []"
  let ?c = "S3List ?prefix 1000"
  assume a: "\<not> fails_at 0 w
        \<and> (\<forall>i<length (truthy_keys (listed ?prefix w)).
              \<not> fails_at (Suc i) w \<and> readable w (truthy_keys (listed ?prefix w) ! i))"
  then have "\<forall>i<length (truthy_keys (listed ?prefix w)).
      \<not> fails_at i (called ?c w) \<and> readable (called ?c w) (truthy_keys (listed ?prefix w) ! i)"
    by (simp add: backend_defs)
  from zip_files_completes [OF this, of ?prefix Map.empty] obtain z w' where
    "zip_files ?prefix (listed ?prefix w) Map.empty (called ?c w) = (Inr z, w')" by blast
  with a show "\<exists>resp' w'. api_download_folder p w = (Inr resp', w')"
    by (simp add: api_download_folder_def backend_defs listed_def Let_def split: option.splits)
qed

text \<open>
  The folder \<open>a\<close> with the objects \<open>a/x.txt\<close> and \<open>a/y/z.txt\<close>: the endpoint returns
  an archive, and its file entries are \<open>x.txt\<close> and \<open>y/z.txt\<close>.
\<close>

theorem download_folder_entry_names_witness:
  "\<exists>resp w'. api_download_folder (Some ''a'') (folder_a []) = (Inr resp, w')
       \<and> (\<exists>z. body resp = ZipBody z \<and> file_names z = {''x.txt'', ''y/z.txt''})"
proof -
  note t = download_folder_entry_names [where p = "Some ''a''" and w = "folder_a []"]
  have "\<not> fails_at 0 (folder_a [])
        \<and> (\<forall>i<length (truthy_keys (listed (or_default (Some ''a'') []) (folder_a []))).
              \<not> fails_at (Suc i) (folder_a [])
              \<and> readable (folder_a [])
                  (truthy_keys (listed (or_default (Some ''a'') []) (folder_a [])) ! i))"
    by (simp add: example_defs less_Suc_eq_0_disj numeral_2_eq_2)
  then have "\<exists>resp' w'. api_download_folder (Some ''a'') (folder_a []) = (Inr resp', w')"
    by (rule t [THEN conjunct2, THEN mp])
  then obtain resp w' where
    r: "api_download_folder (Some ''a'') (folder_a []) = (Inr resp, w')" by (elim exE)
  then have f: "fst (api_download_folder (Some ''a'') (folder_a [])) = Inr resp"
    by (simp only: fst_conv)
  have n: "\<exists>z. body resp = ZipBody z \<and> file_names z = {''x.txt'', ''y/z.txt''}"
    using t [THEN conjunct1, THEN mp, OF f] by (simp add: example_defs)
  show ?thesis
    by (rule exI [of _ resp], rule exI [of _ w'], rule conjI [OF r n])
qed

text \<open>
  Claim C1 as stated fails for the empty prefix. In a bucket with the keys \<open>/a.txt\<close> and
  \<open>a.txt\<close>, every listed key without one leading separator is \<open>a.txt\<close>, and yet the
  archive has a file entry named \<open>/a.txt\<close>: the key is entered under its own name.
\<close>

theorem download_folder_entry_names_counterexample:
  "map key (listed [] slash_bucket) = [''/a.txt'', ''a.txt'']
   \<and> map (strip_leading_slash \<circ> key) (listed [] slash_bucket) = [''a.txt'', ''a.txt'']
   \<and> archive_entry (api_download_folder None slash_bucket) ''/a.txt'' = Some (ZipFile [2])
   \<and> archive_entry (api_download_folder None slash_bucket) ''a.txt'' = Some (ZipFile [2])"
  by (simp add: example_defs eval_defs)

text \<open>
  Claim C5. When the listing fails, or the fetch of any listed object with a non-empty key
  fails (the call fails, the client refuses the key, or the object is not there), the
  download-folder endpoint throws: the request ends in one error and no archive is
  returned, whatever was fetched before.
\<close>

theorem download_folder_aborts:
  assumes "fails_at 0 w \<or>
    (\<exists>i<length (truthy_keys (listed (or_default p []) w)).
        fails_at (Suc i) w \<or> \<not> readable w (truthy_keys (listed (or_default p []) w) ! i))"
  shows "(\<exists>e w'. api_download_folder p w = (Inl e, w'))
         \<and> archive_of (api_download_folder p w) = None"
proof -
  let ?prefix = "or_default p []"
  let ?c = "S3List ?prefix 1000"
  have "\<exists>e w'. api_download_folder p w = (Inl e, w')"
  proof (cases "fails_at 0 w")
    case True
    then show ?thesis by (simp add: api_download_folder_def backend_defs Let_def)
  next
    case False
    with assms have "\<exists>i<length (truthy_keys (listed ?prefix w)).
        fails_at i (called ?c w) \<or> \<not> readable (called ?c w) (truthy_keys (listed ?prefix w) ! i)"
      by (simp add: backend_defs)
    from zip_files_aborts [OF this, of ?prefix Map.empty] obtain e w' where
      "zip_files ?prefix (listed ?prefix w) Map.empty (called ?c w) = (Inl e, w')" by blast
    with False show ?thesis
      by (simp add: api_download_folder_def backend_defs listed_def Let_def split: option.splits)
  qed
  then show ?thesis by (auto simp: archive_of_def)
qed

text \<open>
  The folder \<open>a\<close> when the listing and the first fetch succeed and the second fetch
  fails.
\<close>

theorem download_folder_aborts_witness:
  "(\<exists>e w'. api_download_folder (Some ''a'') (folder_a [False, False, True]) = (Inl e, w'))
   \<and> archive_of (api_download_folder (Some ''a'') (folder_a [False, False, True])) = None"
proof (rule download_folder_aborts)
  let ?w = "folder_a [False, False, True]"
  have "(1::nat) < length (truthy_keys (listed (or_default (Some ''a'') []) ?w))
      \<and> (fails_at (Suc 1) ?w
          \<or> \<not> readable ?w (truthy_keys (listed (or_default (Some ''a'') []) ?w) ! 1))"
    by (simp add: example_defs)
  then show "fails_at 0 ?w \<or>
    (\<exists>i<length (truthy_keys (listed (or_default (Some ''a'') []) ?w)).
        fails_at (Suc i) ?w
        \<or> \<not> readable ?w (truthy_keys (listed (or_default (Some ''a'') []) ?w) ! i))"
    by blast
qed

section \<open>Emptying the bucket\<close>

lemmas browser_eval = handleEmptyBucket_def fetch_list_def fetch_delete_def next_delivery_def
  sent_def

lemma paths_Cons:
  "paths w (k # ks) = (case client_key w k of None \<Rightarrow> [] | Some path \<Rightarrow> [path]) @ paths w ks"
  by (simp add: paths_def)

lemma paths_client: "client_key w' = client_key w \<Longrightarrow> paths w' ks = paths w ks"
  by (simp add: paths_def)

lemma api_delete_effect:
  "client_key (snd (api_delete k w)) = client_key w
   \<and> (\<forall>path. store w path = None \<longrightarrow> store (snd (api_delete k w)) path = None)
   \<and> (\<forall>path. path \<notin> set (paths w [k]) \<longrightarrow> store (snd (api_delete k w)) path = store w path)"
  by (auto simp: api_delete_def s3_delete_def called_def paths_def split: option.splits)

lemma api_delete_succeeds:
  "\<not> fails_at 0 w \<Longrightarrow> client_key w k = Some path \<Longrightarrow>
   api_delete k w
     = (Inr (json_response 200 JsonSuccess),
        (called (S3Delete k) w)\<lparr>store := (store w)(path := None)\<rparr>)"
  by (simp add: api_delete_def backend_defs)

lemma delete_all_halts:
  assumes "n < length (truthy_keys cs)"
    and "\<forall>i<n. delivery_at i b = Delivered \<and> \<not> fails_at i (server b)
            \<and> client_key (server b) (truthy_keys cs ! i) \<noteq> None"
    and "delivery_at n b \<noteq> Delivered"
  shows "\<exists>b'. delete_all cs d b = (None, b')
     \<and> requests b' = requests b @ map PostDelete (take (Suc n) (truthy_keys cs))
     \<and> (\<forall>path. store (server b) path = None \<longrightarrow> store (server b') path = None)
     \<and> (\<forall>path\<in>set (paths (server b) (take n (truthy_keys cs))). store (server b') path = None)
     \<and> (\<forall>path. path \<notin> set (paths (server b) (take (Suc n) (truthy_keys cs)))
            \<longrightarrow> store (server b') path = store (server b) path)
     \<and> (delivery_at n b = Dropped \<longrightarrow>
          (\<forall>path. path \<notin> set (paths (server b) (take n (truthy_keys cs)))
            \<longrightarrow> store (server b') path = store (server b) path))"
  using assms
proof (induction cs arbitrary: n d b)
  case Nil
  then show ?case by (simp add: truthy_keys_def)
next
  case (Cons obj cs)
  show ?case
  proof (cases "key obj = []")
    case True
    with Cons.prems have 1: "n < length (truthy_keys cs)"
      and 2: "\<forall>i<n. delivery_at i b = Delivered \<and> \<not> fails_at i (server b)
            \<and> client_key (server b) (truthy_keys cs ! i) \<noteq> None"
      by (simp_all add: truthy_keys_def)
    from Cons.IH [OF 1 2 Cons.prems(3), of d] True show ?thesis by (simp add: truthy_keys_def)
  next
    case False
    then have ks: "truthy_keys (obj # cs) = key obj # truthy_keys cs"
      by (simp add: truthy_keys_def)
    show ?thesis
    proof (cases n)
      case 0
      from Cons.prems(3) 0 have "delivery_at 0 b = Dropped \<or> delivery_at 0 b = ReplyLost"
        by (cases "delivery_at 0 b") auto
      then show ?thesis
      proof
        assume dr: "delivery_at 0 b = Dropped"
        with False have "delete_all (obj # cs) d b = (None, sent (PostDelete (key obj)) b)"
          by (simp add: fetch_delete_def next_delivery_iff)
        with dr 0 show ?thesis by (simp add: ks requests_sent server_sent paths_def)
      next
        assume rl: "delivery_at 0 b = ReplyLost"
        let ?b' = "(sent (PostDelete (key obj)) b)\<lparr>server := snd (api_delete (key obj) (server b))\<rparr>"
        from rl False have "delete_all (obj # cs) d b = (None, ?b')"
          by (simp add: fetch_delete_def next_delivery_iff)
        with rl 0 api_delete_effect [of "key obj" "server b"] show ?thesis
          by (simp add: ks requests_sent server_sent paths_def)
      qed
    next
      case (Suc m)
      from Cons.prems Suc obtain path where
        ok: "delivery_at 0 b = Delivered" "\<not> fails_at 0 (server b)"
            "client_key (server b) (key obj) = Some path"
        by (auto simp: ks)
      let ?w1 = "(called (S3Delete (key obj)) (server b))\<lparr>store := (store (server b))(path := None)\<rparr>"
      let ?b1 = "(sent (PostDelete (key obj)) b)\<lparr>server := ?w1\<rparr>"
      from ok have step: "fetch_delete (key obj) b = (Resolved True (), ?b1)"
        by (simp add: fetch_delete_def next_delivery_iff api_delete_succeeds)
      have ck: "client_key ?w1 = client_key (server b)"
        by (simp add: client_key_called)
      from Cons.prems Suc have 1: "m < length (truthy_keys cs)" by (simp add: ks)
      from Cons.prems Suc have 2: "\<forall>i<m. delivery_at i ?b1 = Delivered \<and> \<not> fails_at i (server ?b1)
            \<and> client_key (server ?b1) (truthy_keys cs ! i) \<noteq> None"
        by (auto simp: ks delivery_at_sent delivery_at_server fails_at_called fails_at_store
            client_key_called)
      from Cons.prems Suc have 3: "delivery_at m ?b1 \<noteq> Delivered"
        by (simp add: delivery_at_sent delivery_at_server)
      from Cons.IH [OF 1 2 3, of "d + 1"] obtain b' where
        run: "delete_all cs (d + 1) ?b1 = (None, b')"
        and req: "requests b' = requests ?b1 @ map PostDelete (take (Suc m) (truthy_keys cs))"
        and gone: "\<forall>p. store (server ?b1) p = None \<longrightarrow> store (server b') p = None"
        and del: "\<forall>p\<in>set (paths (server ?b1) (take m (truthy_keys cs))). store (server b') p = None"
        and keep: "\<forall>p. p \<notin> set (paths (server ?b1) (take (Suc m) (truthy_keys cs)))
            \<longrightarrow> store (server b') p = store (server ?b1) p"
        and drop: "delivery_at m ?b1 = Dropped \<longrightarrow>
          (\<forall>p. p \<notin> set (paths (server ?b1) (take m (truthy_keys cs)))
            \<longrightarrow> store (server b') p = store (server ?b1) p)"
        by blast
      have pp: "paths ?w1 xs = paths (server b) xs" for xs
        by (rule paths_client) (simp add: ck)
      have pc: "paths (server b) (key obj # xs) = path # paths (server b) xs" for xs
        by (simp add: paths_Cons ok(3))
      have dm: "delivery_at m ?b1 = delivery_at n b"
        by (simp add: Suc delivery_at_sent delivery_at_server)
      have s1: "store (server ?b1) = (store (server b))(path := None)"
        by (simp add: store_called)
      from False step run have "delete_all (obj # cs) d b = (None, b')" by simp
      moreover from req have "requests b' = requests b @ map PostDelete (take (Suc n) (truthy_keys (obj # cs)))"
        by (simp add: ks Suc requests_sent)
      moreover from gone have "\<forall>p. store (server b) p = None \<longrightarrow> store (server b') p = None"
        by (simp add: s1)
      moreover from gone del
      have "\<forall>p\<in>set (paths (server b) (take n (truthy_keys (obj # cs)))). store (server b') p = None"
        by (simp add: ks Suc pp pc s1)
      moreover from keep
      have "\<forall>p. p \<notin> set (paths (server b) (take (Suc n) (truthy_keys (obj # cs))))
            \<longrightarrow> store (server b') p = store (server b) p"
        by (simp add: ks Suc pp pc s1)
      moreover from drop
      have "delivery_at n b = Dropped \<longrightarrow>
          (\<forall>p. p \<notin> set (paths (server b) (take n (truthy_keys (obj # cs))))
            \<longrightarrow> store (server b') p = store (server b) p)"
        by (simp add: ks Suc pp pc s1 dm)
      ultimately show ?thesis by (intro exI [of _ b'] conjI)
    qed
  qed
qed

text \<open>
  Claim C3, as amended. The empty-bucket operation lists the entire bucket and sends one
  delete request per listed object, one after the other. When the first \<open>n\<close> delete
  requests are delivered and succeed and the \<open>fetch\<close> of the next one is rejected, the
  operation halts there: no further delete request is sent and the user is shown the
  failure notice, which carries no count. The objects at the paths the storage client
  makes of the keys of the first \<open>n\<close> requests are gone, and every object at none of
  the paths of the requests sent is untouched. The object of the rejected request is
  untouched too when the request was dropped before it reached the server; when the server
  handled it and only the reply was lost, that object may be gone.
\<close>

theorem empty_bucket_halts:
  assumes "delivery_at 0 b = Delivered" and "\<not> fails_at 0 (server b)"
    and "n < length (truthy_keys (listed [] (server b)))"
    and "\<forall>i<n. delivery_at (Suc i) b = Delivered \<and> \<not> fails_at (Suc i) (server b)
            \<and> client_key (server b) (truthy_keys (listed [] (server b)) ! i) \<noteq> None"
    and "delivery_at (Suc n) b \<noteq> Delivered"
  shows "\<exists>b'. handleEmptyBucket b = (FailedToEmptyBucket, b')
     \<and> requests b' = requests b
          @ GetList [] # map PostDelete (take (Suc n) (truthy_keys (listed [] (server b))))
     \<and> (\<forall>path\<in>set (paths (server b) (take n (truthy_keys (listed [] (server b))))).
            store (server b') path = None)
     \<and> (\<forall>path. path \<notin> set (paths (server b) (take (Suc n) (truthy_keys (listed [] (server b)))))
            \<longrightarrow> store (server b') path = store (server b) path)
     \<and> (delivery_at (Suc n) b = Dropped \<longrightarrow>
          (\<forall>path. path \<notin> set (paths (server b) (take n (truthy_keys (listed [] (server b)))))
            \<longrightarrow> store (server b') path = store (server b) path))"
proof -
  let ?cs = "listed [] (server b)"
  let ?w1 = "called (S3List [] 1000) (server b)"
  let ?b1 = "(sent (GetList []) b)\<lparr>server := ?w1\<rparr>"
  from assms(3) have ne: "?cs \<noteq> []" by (auto simp: truthy_keys_def)
  then obtain cs0 where cs0: "listing (server b) [] = Some cs0" "?cs = take 1000 cs0"
    by (auto simp: listed_def split: option.splits)
  from assms(1,2) cs0 have list: "fetch_list [] b = (Resolved True (Json (Some ?cs)), ?b1)"
    by (simp add: browser_defs backend_defs json_response_def)
  have 2: "\<forall>i<n. delivery_at i ?b1 = Delivered \<and> \<not> fails_at i (server ?b1)
            \<and> client_key (server ?b1) (truthy_keys ?cs ! i) \<noteq> None"
    using assms(4) by (simp add: browser_defs backend_defs)
  have 3: "delivery_at n ?b1 \<noteq> Delivered" using assms(5) by (simp add: browser_defs)
  have pp: "paths ?w1 xs = paths (server b) xs" for xs
    by (rule paths_client) (simp add: client_key_called)
  from delete_all_halts [OF assms(3) 2 3, of 0] obtain b' where
    run: "delete_all ?cs 0 ?b1 = (None, b')"
    and req: "requests b' = requests ?b1 @ map PostDelete (take (Suc n) (truthy_keys ?cs))"
    and del: "\<forall>p\<in>set (paths (server ?b1) (take n (truthy_keys ?cs))). store (server b') p = None"
    and keep: "\<forall>p. p \<notin> set (paths (server ?b1) (take (Suc n) (truthy_keys ?cs)))
            \<longrightarrow> store (server b') p = store (server ?b1) p"
    and drop: "delivery_at n ?b1 = Dropped \<longrightarrow>
          (\<forall>p. p \<notin> set (paths (server ?b1) (take n (truthy_keys ?cs)))
            \<longrightarrow> store (server b') p = store (server ?b1) p)"
    by blast
  from list ne run have "handleEmptyBucket b = (FailedToEmptyBucket, b')"
    by (simp add: handleEmptyBucket_def)
  moreover from req have "requests b' = requests b
          @ GetList [] # map PostDelete (take (Suc n) (truthy_keys ?cs))"
    by (simp add: requests_sent)
  moreover from del have "\<forall>p\<in>set (paths (server b) (take n (truthy_keys ?cs))).
            store (server b') p = None"
    by (simp add: pp)
  moreover from keep have "\<forall>p. p \<notin> set (paths (server b) (take (Suc n) (truthy_keys ?cs)))
            \<longrightarrow> store (server b') p = store (server b) p"
    by (simp add: pp store_called)
  moreover from drop have "delivery_at (Suc n) b = Dropped \<longrightarrow>
          (\<forall>p. p \<notin> set (paths (server b) (take n (truthy_keys ?cs)))
            \<longrightarrow> store (server b') p = store (server b) p)"
    by (simp add: pp store_called delivery_at_sent delivery_at_server)
  ultimately show ?thesis by (intro exI [of _ b'] conjI)
qed

text \<open>
  Three objects, the second delete request dropped: the first object is gone, the other
  two are still there, two delete requests were sent.
\<close>

theorem empty_bucket_halts_witness:
  "\<exists>b'. handleEmptyBucket (three_objects [] [Delivered, Delivered, Dropped])
            = (FailedToEmptyBucket, b')
     \<and> requests b' = [GetList [], PostDelete ''a'', PostDelete ''b'']
     \<and> store (server b') ''a'' = None
     \<and> store (server b') ''b'' = Some [2]
     \<and> store (server b') ''c'' = Some [3]"
proof -
  let ?b = "three_objects [] [Delivered, Delivered, Dropped]"
  let ?ks = "truthy_keys (listed [] (server ?b))"
  have 1: "delivery_at 0 ?b = Delivered" and 2: "\<not> fails_at 0 (server ?b)"
    and 3: "1 < length ?ks"
    and 4: "\<forall>i<1. delivery_at (Suc i) ?b = Delivered \<and> \<not> fails_at (Suc i) (server ?b)
            \<and> client_key (server ?b) (?ks ! i) \<noteq> None"
    and 5: "delivery_at (Suc 1) ?b \<noteq> Delivered"
    by (simp_all add: example_defs)
  have 6: "delivery_at (Suc 1) ?b = Dropped"
    by (simp add: example_defs)
  from empty_bucket_halts [OF 1 2 3 4 5] obtain b' where
    run: "handleEmptyBucket ?b = (FailedToEmptyBucket, b')"
    and req: "requests b' = requests ?b @ GetList [] # map PostDelete (take (Suc 1) ?ks)"
    and del: "\<forall>p\<in>set (paths (server ?b) (take 1 ?ks)). store (server b') p = None"
    and drop: "delivery_at (Suc 1) ?b = Dropped \<longrightarrow>
          (\<forall>p. p \<notin> set (paths (server ?b) (take 1 ?ks))
            \<longrightarrow> store (server b') p = store (server ?b) p)"
    by (elim exE conjE)
  from drop 6 have keep: "\<forall>p. p \<notin> set (paths (server ?b) (take 1 ?ks))
            \<longrightarrow> store (server b') p = store (server ?b) p"
    by (rule mp)
  from req have r: "requests b' = [GetList [], PostDelete ''a'', PostDelete ''b'']"
    by (simp add: example_defs)
  from del have a: "store (server b') ''a'' = None"
    by (simp add: example_defs)
  from keep [rule_format, of "''b''"] have b: "store (server b') ''b'' = Some [2]"
    by (simp add: example_defs)
  from keep [rule_format, of "''c''"] have c: "store (server b') ''c'' = Some [3]"
    by (simp add: example_defs)
  from run r a b c show ?thesis by (intro exI [of _ b'] conjI)
qed

text \<open>
  Claim C3 as stated fails in four ways. Three objects, the second delete call failing at
  the backend: the handler throws, the \<open>fetch\<close> resolves all the same, and the loop goes
  on to delete the third object and reports three deletions. The second request dropped
  instead: the loop halts, but what is reported is the failure notice, not the count of
  one. The second request handled by the server and only its reply lost: the loop halts
  and the object of the failed request is gone. And a listed key \<open>d/\<close> whose delete
  request succeeds before the next one is dropped: the client deletes at the path \<open>d\<close>,
  and the listed object is still there.
\<close>

theorem empty_bucket_halts_counterexample:
  "fst (handleEmptyBucket (three_objects [False, False, True] [])) = SuccessfullyDeleted 3
   \<and> requests (snd (handleEmptyBucket (three_objects [False, False, True] [])))
       = [GetList [], PostDelete ''a'', PostDelete ''b'', PostDelete ''c'']
   \<and> store (server (snd (handleEmptyBucket (three_objects [False, False, True] [])))) ''b'' = Some [2]
   \<and> store (server (snd (handleEmptyBucket (three_objects [False, False, True] [])))) ''c'' = None
   \<and> fst (handleEmptyBucket (three_objects [] [Delivered, Delivered, Dropped])) = FailedToEmptyBucket
   \<and> fst (handleEmptyBucket (three_objects [] [Delivered, Delivered, ReplyLost])) = FailedToEmptyBucket
   \<and> store (server (snd (handleEmptyBucket (three_objects [] [Delivered, Delivered, ReplyLost])))) ''b'' = None
   \<and> fst (handleEmptyBucket (browser_of [(''d/'', [1]), (''e'', [2])] [] [Delivered, Delivered, Dropped]))
       = FailedToEmptyBucket
   \<and> requests (snd (handleEmptyBucket (browser_of [(''d/'', [1]), (''e'', [2])] [] [Delivered, Delivered, Dropped])))
       = [GetList [], PostDelete ''d/'', PostDelete ''e'']
   \<and> store (server (snd (handleEmptyBucket (browser_of [(''d/'', [1]), (''e'', [2])] [] [Delivered, Delivered, Dropped])))) ''d/''
       = Some [1]"
  by (simp add: example_defs browser_eval eval_defs)

section \<open>Grouping a listing into folders and files\<close>

lemma group_step_classify:
  "group_step cp acc obj =
     (case classify cp (key obj) of
        Excluded \<Rightarrow> acc
      | AsFile \<Rightarrow> acc\<lparr>files := files acc @ [obj]\<rparr>
      | InFolder f \<Rightarrow> if f \<in> set (folders acc) then acc else acc\<lparr>folders := folders acc @ [f]\<rparr>)"
  by (simp add: group_step_def classify_def)

lemma foldl_group_files:
  "files (foldl (group_step cp) acc objs) =
     files acc @ filter (\<lambda>obj. classify cp (key obj) = AsFile) objs"
  by (induction objs arbitrary: acc) (auto simp: group_step_classify split: placement.splits)

lemma foldl_group_folders:
  "set (folders (foldl (group_step cp) acc objs)) =
     set (folders acc) \<union> {f. \<exists>obj\<in>set objs. classify cp (key obj) = InFolder f}"
  by (induction objs arbitrary: acc) (auto simp: group_step_classify split: placement.splits)

lemma foldl_group_distinct:
  "distinct (folders acc) \<Longrightarrow> distinct (folders (foldl (group_step cp) acc objs))"
  by (induction objs arbitrary: acc) (auto simp: group_step_classify split: placement.splits)

lemma InFolder_no_slash: "classify cp k = InFolder f \<Longrightarrow> slash \<notin> set f"
  by (auto simp: classify_def first_segment split: if_splits dest: set_takeWhileD)

lemma relativePath_under:
  "relativePath cp (cp @ rest) = [] \<longleftrightarrow> rest = [] \<or> (cp \<noteq> [] \<and> rest = [slash])"
  by (cases rest) (auto simp: relativePath_def)

text \<open>
  Claim C4, as amended. For every listing and every \<open>currentPath\<close>, the grouping puts
  each listed object into exactly one of three classes by its relative path: excluded
  (the relative path is empty), file (exactly one segment) or folder (more than one
  segment, under the first segment's name). The files are the objects of the file class,
  in listing order; the folders are the distinct first segments of the objects of the
  folder class; no folder name contains a separator. A key that starts with
  \<open>currentPath\<close> is excluded exactly when it equals \<open>currentPath\<close> or, for a
  non-empty \<open>currentPath\<close>, is \<open>currentPath\<close> followed by one separator. The
  grouping is a function of the listing and \<open>currentPath\<close> alone.
\<close>

theorem grouping_partition:
  "files (groupedObjects objects cp) = filter (\<lambda>obj. classify cp (key obj) = AsFile) objects
   \<and> set (folders (groupedObjects objects cp))
        = {f. \<exists>obj\<in>set objects. classify cp (key obj) = InFolder f}
   \<and> distinct (folders (groupedObjects objects cp))
   \<and> (\<forall>f\<in>set (folders (groupedObjects objects cp)). slash \<notin> set f)
   \<and> (\<forall>k. (classify cp k = Excluded) = (relativePath cp k = []))
   \<and> (\<forall>k. (classify cp k = AsFile)
           = (relativePath cp k \<noteq> [] \<and> length (split_slash (relativePath cp k)) = 1))
   \<and> (\<forall>k f. (classify cp k = InFolder f)
           = (1 < length (split_slash (relativePath cp k))
              \<and> f = takeWhile (\<lambda>c. c \<noteq> slash) (relativePath cp k)))
   \<and> (\<forall>rest. (classify cp (cp @ rest) = Excluded)
           = (rest = [] \<or> (cp \<noteq> [] \<and> rest = [slash])))"
proof (intro conjI)
  show "files (groupedObjects objects cp) = filter (\<lambda>obj. classify cp (key obj) = AsFile) objects"
    by (simp add: groupedObjects_def foldl_group_files)
  show fs: "set (folders (groupedObjects objects cp))
        = {f. \<exists>obj\<in>set objects. classify cp (key obj) = InFolder f}"
    by (simp add: groupedObjects_def foldl_group_folders)
  show "distinct (folders (groupedObjects objects cp))"
    by (simp add: groupedObjects_def foldl_group_distinct)
  show "\<forall>f\<in>set (folders (groupedObjects objects cp)). slash \<notin> set f"
    unfolding fs by (auto dest: InFolder_no_slash)
  show "\<forall>k. (classify cp k = Excluded) = (relativePath cp k = [])"
    by (simp add: classify_def)
  show "\<forall>k. (classify cp k = AsFile)
           = (relativePath cp k \<noteq> [] \<and> length (split_slash (relativePath cp k)) = 1)"
    by (simp add: classify_def)
  show "\<forall>k f. (classify cp k = InFolder f)
           = (1 < length (split_slash (relativePath cp k))
              \<and> f = takeWhile (\<lambda>c. c \<noteq> slash) (relativePath cp k))"
    by (auto simp: classify_def first_segment length_split_slash)
  show "\<forall>rest. (classify cp (cp @ rest) = Excluded)
           = (rest = [] \<or> (cp \<noteq> [] \<and> rest = [slash]))"
    by (simp add: classify_def relativePath_under)
qed

text \<open>
  The listing \<open>a/b.txt\<close>, \<open>a/c/d.txt\<close>, \<open>a/\<close> grouped under \<open>a\<close>: one file, the
  folder \<open>c\<close>, and the folder marker excluded.
\<close>

theorem grouping_partition_witness:
  "files (groupedObjects [named ''a/b.txt'', named ''a/c/d.txt'', named ''a/''] ''a'') = [named ''a/b.txt'']
   \<and> set (folders (groupedObjects [named ''a/b.txt'', named ''a/c/d.txt'', named ''a/''] ''a'')) = {''c''}
   \<and> classify ''a'' ''a/'' = Excluded"
proof -
  note t = grouping_partition [of "[named ''a/b.txt'', named ''a/c/d.txt'', named ''a/'']" "''a''"]
  have "''a/'' = ''a'' @ [slash]" by (simp add: slash_def)
  with t [THEN conjunct2, THEN conjunct2, THEN conjunct2, THEN conjunct2, THEN conjunct2,
        THEN conjunct2, THEN conjunct2, rule_format, of "[slash]"]
  have 3: "classify ''a'' ''a/'' = Excluded" by simp
  from t [THEN conjunct1] t [THEN conjunct2, THEN conjunct1] 3
  show ?thesis
    by (simp add: classify_def relativePath_def slash_def named_def)
qed

text \<open>
  Claim C4 as stated fails where it equates the excluded class with the keys equal to
  \<open>currentPath\<close>: under \<open>a\<close>, the key \<open>a/\<close> starts with \<open>currentPath\<close>, differs
  from it, and is in neither the folders nor the files.
\<close>

theorem grouping_partition_counterexample:
  "groupedObjects [named ''a/''] ''a'' = \<lparr>folders = [], files = []\<rparr>
   \<and> take (length ''a'') ''a/'' = ''a''
   \<and> key (named ''a/'') \<noteq> ''a''"
  by (simp add: groupedObjects_def group_step_def relativePath_def slash_def named_def)

end
